theory Spec2Isabelle
  imports Main "HOL-Library.Word"
begin

section \<open>Values of type interface{} and error\<close>

text \<open>
  Go's \<^verbatim>\<open>error\<close> is an interface value: \<open>None\<close> is the nil error, \<open>Some e\<close> an
  error with its message. \<^verbatim>\<open>interface{}\<close> values are the ones the two packages
  handle: nil, strings, other scalars (an integer stands for every non-string
  scalar), errors, level values, and the deferred values (\<^verbatim>\<open>log.Valuer\<close>) of
  part\_000, before and after they are called at emission time.
\<close>

datatype goerror = GoError string

type_synonym error = "goerror option"

datatype lvl = DebugLvl | InfoLvl | WarnLvl | ErrorLvl

datatype valuer = DefaultTimestampUTC | CallerAt int | FunctionAt int

datatype iface =
    GoNil
  | GoString string
  | GoInt int
  | GoErr goerror
  | GoLevel lvl
  | GoValuer valuer
  | GoResolved valuer

datatype panic =
    InterfaceConversion iface
  | InvalidLogFormat "32 word"
  | NilDereference

section \<open>Package fctx (src/fctx/fctx.go)\<close>

type_synonym ReqKey = int
type_synonym SvcKey = int

definition ReqUnset :: ReqKey where "ReqUnset = 0"
definition ReqEndpoint :: ReqKey where "ReqEndpoint = 1"
definition ReqAuth :: ReqKey where "ReqAuth = 2"

definition SvcUnset :: SvcKey where "SvcUnset = 0"

record CtxKey =
  SvcKey :: SvcKey
  ReqKey :: ReqKey

text \<open>
  The package-level variables \<^verbatim>\<open>svc\<close>, \<^verbatim>\<open>once\<close> and \<^verbatim>\<open>serviceNameToSvcKey\<close>
  are the state of the package. \<^verbatim>\<open>once\<close> is the done flag of the
  \<^verbatim>\<open>sync.Once\<close>. \<open>fctx0\<close> is the state the program starts in: the zero
  value of \<^verbatim>\<open>svc\<close>, a fresh \<^verbatim>\<open>sync.Once\<close>, and the table as the source
  initialises it, with no entry. No function of the package assigns the table.
\<close>

record fstate =
  svc :: SvcKey
  once :: bool
  serviceNameToSvcKey :: "string \<rightharpoonup> SvcKey"

definition fctx0 :: fstate where
  "fctx0 = \<lparr>svc = 0, once = False, serviceNameToSvcKey = Map.empty\<rparr>"

text \<open>\<^verbatim>\<open>once.Do(f)\<close>: runs \<open>f\<close> unless a \<^verbatim>\<open>Do\<close> has run before, and marks the Once done.\<close>

definition once_Do :: "(fstate \<Rightarrow> fstate) \<Rightarrow> fstate \<Rightarrow> fstate" where
  "once_Do f s = (if once s then s else (f s)\<lparr>once := True\<rparr>)"

definition fctx_Init :: "string \<Rightarrow> fstate \<Rightarrow> fstate" where
  "fctx_Init service s =
     (case serviceNameToSvcKey s service of
        Some svcKey \<Rightarrow> once_Do (\<lambda>t. t\<lparr>svc := svcKey\<rparr>) s
      | None \<Rightarrow> once_Do (\<lambda>t. t\<lparr>svc := SvcUnset\<rparr>) s)"

definition NewContextKey :: "fstate \<Rightarrow> ReqKey \<Rightarrow> CtxKey" where
  "NewContextKey s reqKey = \<lparr>SvcKey = svc s, ReqKey = reqKey\<rparr>"

text \<open>
  \<^verbatim>\<open>selectedTags\<close> is a Go map with one entry, so ranging over it visits that
  entry; the association list keeps the entries in the order they are visited.
\<close>

definition selectedTags :: "(string \<times> ReqKey) list" where
  "selectedTags = [(''endpoint'', ReqEndpoint)]"

text \<open>
  A \<^verbatim>\<open>context.Context\<close> built by \<^verbatim>\<open>context.WithValue\<close>: the pairs stored, the
  latest first. Keys are the package's \<^verbatim>\<open>CtxKey\<close> values or keys of other
  packages. \<^verbatim>\<open>ctx.Value(key)\<close> is the latest value stored under \<open>key\<close>, nil
  when there is none.
\<close>

datatype ckey = CtxKeyOf CtxKey | OtherKey string

type_synonym Context = "(ckey \<times> iface) list"

definition WithValue :: "Context \<Rightarrow> ckey \<Rightarrow> iface \<Rightarrow> Context" where
  "WithValue ctx k v = (k, v) # ctx"

definition Value :: "Context \<Rightarrow> ckey \<Rightarrow> iface" where
  "Value ctx k = (case map_of ctx k of None \<Rightarrow> GoNil | Some v \<Rightarrow> v)"

text \<open>
  The loop of \<^verbatim>\<open>MetricsTagsFromContext\<close> over the entries of \<^verbatim>\<open>selectedTags\<close>
  still to visit, with the slice \<^verbatim>\<open>tags\<close> built so far. The type assertion
  \<^verbatim>\<open>val.(string)\<close> panics on a value that is not a string.
\<close>

fun tagsLoop :: "fstate \<Rightarrow> Context \<Rightarrow> (string \<times> ReqKey) list \<Rightarrow> string list \<Rightarrow> panic + string list" where
  "tagsLoop s ctx [] tags = Inr tags"
| "tagsLoop s ctx ((tagname, tagkey) # rest) tags =
     (if svc s = SvcUnset then tagsLoop s ctx rest (tags @ [tagname] @ [''svc_unset''])
      else
        (case Value ctx (CtxKeyOf (NewContextKey s tagkey)) of
           GoNil \<Rightarrow> tagsLoop s ctx rest (tags @ [tagname] @ [''unset''])
         | GoString str \<Rightarrow> tagsLoop s ctx rest (tags @ [tagname] @ [str])
         | val \<Rightarrow> Inl (InterfaceConversion val)))"

definition MetricsTagsFromContext :: "fstate \<Rightarrow> Context \<Rightarrow> panic + string list" where
  "MetricsTagsFromContext s ctx = tagsLoop s ctx selectedTags []"

text \<open>
  The loop of \<^verbatim>\<open>LogTagsFromContext\<close>: \<^verbatim>\<open>intfTags[i] = tags[i]\<close> for every index
  \<open>i\<close> of \<^verbatim>\<open>tags\<close>, from \<open>i\<close> on. \<^verbatim>\<open>make([]interface{}, len(tags))\<close> is a slice
  of that many nils.
\<close>

function copyLoop :: "string list \<Rightarrow> nat \<Rightarrow> iface list \<Rightarrow> iface list" where
  "copyLoop tags i intfTags =
     (if i < length tags then copyLoop tags (Suc i) (intfTags[i := GoString (tags ! i)])
      else intfTags)"
  by pat_completeness auto
termination
  by (relation "measure (\<lambda>(tags, i, intfTags). length tags - i)") auto

definition LogTagsFromContext :: "fstate \<Rightarrow> Context \<Rightarrow> panic + iface list" where
  "LogTagsFromContext s ctx =
     (case MetricsTagsFromContext s ctx of
        Inl p \<Rightarrow> Inl p
      | Inr tags \<Rightarrow> Inr (copyLoop tags 0 (replicate (length tags) GoNil)))"

text \<open>
  The precondition of the spec on a context: every value stored under a key of
  this package is a string.
\<close>

definition stringsOnly :: "Context \<Rightarrow> bool" where
  "stringsOnly ctx =
     list_all (\<lambda>(k, v). case k of
                  CtxKeyOf c \<Rightarrow> (case v of GoString str \<Rightarrow> True | _ \<Rightarrow> False)
                | OtherKey n \<Rightarrow> True) ctx"

text \<open>
  The invariant of the program as it starts: the table has no entry and the
  service identity is \<open>SvcUnset\<close>.
\<close>

definition unset_inv :: "fstate \<Rightarrow> bool" where
  "unset_inv s = (svc s = SvcUnset \<and> serviceNameToSvcKey s = Map.empty)"

section \<open>The logging library behind part\_000\<close>

text \<open>
  Modelled from the spec: the sink and the library calls of part\_000 on it
  (the packages \<^verbatim>\<open>log\<close> and \<^verbatim>\<open>level\<close> of go-kit, which the file imports and
  the repository does not contain). The spec's sink accepts one ordered
  alternating key/value sequence per record; a logger is a sink with the
  key/value pairs accumulated so far. As the library documents it:
  \<^verbatim>\<open>log.With\<close> appends pairs and \<^verbatim>\<open>log.WithPrefix\<close> prepends them, a sequence
  of odd length is completed with \<^verbatim>\<open>ErrMissingValue\<close>, a call with no pairs
  returns the logger as it is, the level functions prepend the pair "level",
  and \<^verbatim>\<open>Log\<close> calls the deferred values among the accumulated pairs
  (not among its own arguments) before it hands the record to the sink.
  A deferred value that has been called stays symbolic: \<open>GoResolved v\<close> is what
  \<open>v\<close> returned at that emission. The library's flag that a logger holds a
  deferred value only saves the search for one, and is left out.
\<close>

datatype baseLogger = JSONLogger | LogfmtLogger | NopLogger

record logger =
  base :: baseLogger
  keyvals :: "iface list"

definition ErrMissingValue :: iface where
  "ErrMissingValue = GoErr (GoError ''(MISSING)'')"

definition padKeyvals :: "iface list \<Rightarrow> iface list" where
  "padKeyvals kvs = (if even (length kvs) then kvs else kvs @ [ErrMissingValue])"

definition log_With :: "logger \<Rightarrow> iface list \<Rightarrow> logger" where
  "log_With lg kvs =
     (if kvs = [] then lg else lg\<lparr>keyvals := padKeyvals (keyvals lg @ kvs)\<rparr>)"

definition log_WithPrefix :: "logger \<Rightarrow> iface list \<Rightarrow> logger" where
  "log_WithPrefix lg kvs =
     (if kvs = [] then lg else lg\<lparr>keyvals := padKeyvals kvs @ keyvals lg\<rparr>)"

fun bindValues :: "iface list \<Rightarrow> iface list" where
  "bindValues (k # GoValuer v # rest) = k # GoResolved v # bindValues rest"
| "bindValues (k # x # rest) = k # x # bindValues rest"
| "bindValues kvs = kvs"

text \<open>
  What a sink answers to a record is the environment's: \<open>wr\<close> gives the error
  (or nil) of encoding and writing a record to standard output, after the
  records handed over so far. The no-op sink answers nil to everything.
\<close>

type_synonym writer = "(baseLogger \<times> iface list) list \<Rightarrow> baseLogger \<Rightarrow> iface list \<Rightarrow> error"

definition baseLog :: "writer \<Rightarrow> (baseLogger \<times> iface list) list \<Rightarrow> baseLogger \<Rightarrow> iface list \<Rightarrow> error" where
  "baseLog wr tr b r = (case b of NopLogger \<Rightarrow> None | _ \<Rightarrow> wr tr b r)"

definition everyWriteSucceeds :: writer where
  "everyWriteSucceeds tr b r = None"

section \<open>Package logger (src/unnamed/part\_000)\<close>

definition FormatLogfmt :: "32 word" where "FormatLogfmt = 0"
definition FormatJson :: "32 word" where "FormatJson = 1"
definition FormatNop :: "32 word" where "FormatNop = 2"
definition FormatDefault :: "32 word" where "FormatDefault = FormatJson"

definition nominalStackDepth :: int where "nominalStackDepth = 3"

record levels =
  internalLogger :: logger

text \<open>
  The state of the package: its variables \<^verbatim>\<open>defaultLevels\<close> (\<open>None\<close> is the nil
  interface) and \<^verbatim>\<open>defaultFormat\<close>, the flags and the output of the standard
  library's logger, which the package sets, and the records handed to sinks so
  far, each with the sink that received it. \<open>boot\<close> is the state in which the
  package's \<^verbatim>\<open>init\<close> runs.
\<close>

record lstate =
  defaultLevels :: "levels option"
  defaultFormat :: "32 word"
  stdlogFlags :: int
  stdlogOutput :: "logger option"
  emitted :: "(baseLogger \<times> iface list) list"

definition boot :: lstate where
  "boot = \<lparr>defaultLevels = None, defaultFormat = FormatJson, stdlogFlags = 3,
           stdlogOutput = None, emitted = []\<rparr>"

definition Llongfile :: int where "Llongfile = 8"

text \<open>\<^verbatim>\<open>Log\<close> of a logger: the record goes to its sink, whose answer is returned.\<close>

definition Log :: "writer \<Rightarrow> logger \<Rightarrow> iface list \<Rightarrow> lstate \<Rightarrow> error \<times> lstate" where
  "Log wr lg kvs s =
     (let n = length (keyvals lg);
          kvs' = padKeyvals (keyvals lg @ kvs);
          r = bindValues (take n kvs') @ drop n kvs'
      in (baseLog wr (emitted s) (base lg) r, s\<lparr>emitted := emitted s @ [(base lg, r)]\<rparr>))"

definition caller :: "int \<Rightarrow> iface" where
  "caller depth = GoValuer (CallerAt depth)"

definition function_valuer :: "int \<Rightarrow> iface" where
  "function_valuer depth = GoValuer (FunctionAt depth)"

definition iface_of_error :: "error \<Rightarrow> iface" where
  "iface_of_error err = (case err of None \<Rightarrow> GoNil | Some e \<Rightarrow> GoErr e)"

subsection \<open>The methods of levels\<close>

definition levels_Info :: "levels \<Rightarrow> logger" where
  "levels_Info l = log_WithPrefix (internalLogger l) [GoString ''level'', GoLevel InfoLvl]"

definition levels_Debug :: "levels \<Rightarrow> logger" where
  "levels_Debug l = log_WithPrefix (internalLogger l) [GoString ''level'', GoLevel DebugLvl]"

definition levels_Warn :: "levels \<Rightarrow> logger" where
  "levels_Warn l = log_WithPrefix (internalLogger l) [GoString ''level'', GoLevel WarnLvl]"

definition levels_Error :: "levels \<Rightarrow> logger" where
  "levels_Error l = log_WithPrefix (internalLogger l) [GoString ''level'', GoLevel ErrorLvl]"

definition levels_With :: "levels \<Rightarrow> iface list \<Rightarrow> levels" where
  "levels_With l kvs = \<lparr>internalLogger = log_With (internalLogger l) kvs\<rparr>"

definition levels_WithCustomDepth :: "levels \<Rightarrow> int \<Rightarrow> iface list \<Rightarrow> levels" where
  "levels_WithCustomDepth l depth kvs =
     levels_With
       (levels_With l [GoString ''caller'', caller depth,
                       GoString ''function'', function_valuer depth])
       kvs"

definition levels_WithContext :: "fstate \<Rightarrow> levels \<Rightarrow> Context \<Rightarrow> panic + levels" where
  "levels_WithContext fs l ctx =
     (case LogTagsFromContext fs ctx of
        Inl p \<Rightarrow> Inl p
      | Inr tags \<Rightarrow> Inr (levels_WithCustomDepth l (nominalStackDepth + 2) tags))"


subsection \<open>The functions of the package\<close>

definition AddDefaultKeyvals :: "iface list \<Rightarrow> lstate \<Rightarrow> panic + lstate" where
  "AddDefaultKeyvals kvs s =
     (case defaultLevels s of
        None \<Rightarrow> Inl NilDereference
      | Some l \<Rightarrow>
          (let l' = levels_With l kvs;
               stdlibAdapter = levels_Info
                 (levels_With l' [GoString ''function'', GoString ''stdlibLoggerRedirect''])
           in Inr (s\<lparr>defaultLevels := Some l', stdlogOutput := Some stdlibAdapter\<rparr>)))"

definition logger_Init :: "32 word \<Rightarrow> lstate \<Rightarrow> panic + lstate" where
  "logger_Init format s =
     (case (if format = FormatJson then Some JSONLogger
            else if format = FormatLogfmt then Some LogfmtLogger
            else if format = FormatNop then Some NopLogger
            else None) of
        None \<Rightarrow> Inl (InvalidLogFormat format)
      | Some l \<Rightarrow>
          AddDefaultKeyvals
            [GoString ''timestamp'', GoValuer DefaultTimestampUTC,
             GoString ''file'', caller nominalStackDepth,
             GoString ''function'', function_valuer nominalStackDepth]
            (s\<lparr>defaultFormat := format,
               defaultLevels := Some \<lparr>internalLogger = \<lparr>base = l, keyvals = []\<rparr>\<rparr>\<rparr>))"

definition logger_init :: "lstate \<Rightarrow> panic + lstate" where
  "logger_init s = logger_Init (defaultFormat s) (s\<lparr>stdlogFlags := Llongfile\<rparr>)"

definition Info :: "lstate \<Rightarrow> panic + logger" where
  "Info s = (case defaultLevels s of None \<Rightarrow> Inl NilDereference | Some l \<Rightarrow> Inr (levels_Info l))"

definition Debug :: "lstate \<Rightarrow> panic + logger" where
  "Debug s = (case defaultLevels s of None \<Rightarrow> Inl NilDereference | Some l \<Rightarrow> Inr (levels_Debug l))"

definition Warn :: "lstate \<Rightarrow> panic + logger" where
  "Warn s = (case defaultLevels s of None \<Rightarrow> Inl NilDereference | Some l \<Rightarrow> Inr (levels_Warn l))"

definition Error :: "lstate \<Rightarrow> panic + logger" where
  "Error s = (case defaultLevels s of None \<Rightarrow> Inl NilDereference | Some l \<Rightarrow> Inr (levels_Error l))"

definition With :: "iface list \<Rightarrow> lstate \<Rightarrow> panic + levels" where
  "With kvs s =
     (case defaultLevels s of None \<Rightarrow> Inl NilDereference | Some l \<Rightarrow> Inr (levels_With l kvs))"


definition WithContext :: "fstate \<Rightarrow> Context \<Rightarrow> lstate \<Rightarrow> panic + levels" where
  "WithContext fs ctx s =
     (case defaultLevels s of
        None \<Rightarrow> Inl NilDereference
      | Some l \<Rightarrow> levels_WithContext fs l ctx)"

definition LogError :: "writer \<Rightarrow> error \<Rightarrow> iface list \<Rightarrow> lstate \<Rightarrow> panic + (error \<times> lstate)" where
  "LogError wr err kvs s =
     (case defaultLevels s of
        None \<Rightarrow> Inl NilDereference
      | Some l \<Rightarrow>
          Inr (Log wr (levels_Error (levels_WithCustomDepth l (nominalStackDepth + 1) kvs))
                 [GoString ''err'', iface_of_error err] s))"

text \<open>
  The state after the package's \<^verbatim>\<open>init\<close>, written out (lemma \<open>logger_init_boot\<close>
  checks it). \<^verbatim>\<open>init\<close> runs before any other function of the package can be
  called, so the default Leveler is set wherever they run.
\<close>

definition started :: lstate where
  "started =
     \<lparr>defaultLevels = Some \<lparr>internalLogger = \<lparr>base = JSONLogger, keyvals =
          [GoString ''timestamp'', GoValuer DefaultTimestampUTC,
           GoString ''file'', GoValuer (CallerAt 3),
           GoString ''function'', GoValuer (FunctionAt 3)]\<rparr>\<rparr>,
      defaultFormat = 1,
      stdlogFlags = 8,
      stdlogOutput = Some \<lparr>base = JSONLogger, keyvals =
          [GoString ''level'', GoLevel InfoLvl,
           GoString ''timestamp'', GoValuer DefaultTimestampUTC,
           GoString ''file'', GoValuer (CallerAt 3),
           GoString ''function'', GoValuer (FunctionAt 3),
           GoString ''function'', GoString ''stdlibLoggerRedirect'']\<rparr>,
      emitted = []\<rparr>"

text \<open>
  How a reader that lets the last write win resolves a key of a record (the
  spec's reading of duplicate keys): the value of the last pair with that key.
\<close>

fun lastValue :: "iface \<Rightarrow> iface list \<Rightarrow> iface option" where
  "lastValue k (k' # v # rest) =
     (case lastValue k rest of
        Some w \<Rightarrow> Some w
      | None \<Rightarrow> if k' = k then Some v else None)"
| "lastValue k kvs = None"

text \<open>
  Every logger the package builds holds whole pairs: the invariant of
  \<^verbatim>\<open>defaultLevels\<close>.
\<close>

definition wholePairs :: "levels \<Rightarrow> bool" where
  "wholePairs l = even (length (keyvals (internalLogger l)))"

text \<open>
  The record that \<^verbatim>\<open>LogError\<close> hands to the sink, for the Leveler \<open>l\<close> it starts
  from and the depth it passes to \<^verbatim>\<open>WithCustomDepth\<close>: the level, the pairs of
  \<open>l\<close>, caller and function at that depth, the given pairs, and the error under
  the key "err".
\<close>

definition errorRecord :: "levels \<Rightarrow> int \<Rightarrow> error \<Rightarrow> iface list \<Rightarrow> iface list" where
  "errorRecord l depth err kvs =
     [GoString ''level'', GoLevel ErrorLvl]
     @ bindValues (keyvals (internalLogger l))
     @ [GoString ''caller'', GoResolved (CallerAt depth),
        GoString ''function'', GoResolved (FunctionAt depth)]
     @ bindValues (padKeyvals kvs)
     @ [GoString ''err'', iface_of_error err]"

section \<open>Properties of package fctx\<close>

subsection \<open>Lemmas on the loops\<close>

lemma tagsLoop_svc_unset:
  "svc s = SvcUnset \<Longrightarrow>
   tagsLoop s ctx sel tags = Inr (tags @ concat (map (\<lambda>(n, k). [n, ''svc_unset'']) sel))"
  by (induction sel arbitrary: tags) auto

lemma copyLoop_invariant:
  "length intfTags = length tags \<Longrightarrow> i \<le> length tags \<Longrightarrow>
   copyLoop tags i intfTags = take i intfTags @ map GoString (drop i tags)"
proof (induction tags i intfTags rule: copyLoop.induct)
  case (1 tags i intfTags)
  show ?case
  proof (cases "i < length tags")
    case True
    have "copyLoop tags i intfTags = copyLoop tags (Suc i) (intfTags[i := GoString (tags ! i)])"
      using True by simp
    also have "\<dots> = take (Suc i) (intfTags[i := GoString (tags ! i)]) @ map GoString (drop (Suc i) tags)"
      using "1.IH" [OF True] True "1.prems" by simp
    also have "take (Suc i) (intfTags[i := GoString (tags ! i)]) = take i intfTags @ [GoString (tags ! i)]"
      using True "1.prems" by (simp add: take_Suc_conv_app_nth)
    also have "(take i intfTags @ [GoString (tags ! i)]) @ map GoString (drop (Suc i) tags)
        = take i intfTags @ map GoString (drop i tags)"
      using True by (simp add: Cons_nth_drop_Suc [symmetric])
    finally show ?thesis .
  next
    case False
    then show ?thesis using "1.prems" by simp
  qed
qed

lemma copyLoop_map: "copyLoop tags 0 (replicate (length tags) GoNil) = map GoString tags"
  by (simp add: copyLoop_invariant del: copyLoop.simps)

lemma LogTags_of_MetricsTags:
  "LogTagsFromContext s ctx =
     (case MetricsTagsFromContext s ctx of Inl p \<Rightarrow> Inl p | Inr tags \<Rightarrow> Inr (map GoString tags))"
  by (simp add: LogTagsFromContext_def copyLoop_map del: copyLoop.simps split: sum.splits)

lemma MetricsTags_svc_unset:
  "svc s = SvcUnset \<Longrightarrow> MetricsTagsFromContext s ctx = Inr [''endpoint'', ''svc_unset'']"
  by (simp add: MetricsTagsFromContext_def tagsLoop_svc_unset selectedTags_def)

lemma MetricsTags_absent:
  "svc s \<noteq> SvcUnset \<Longrightarrow> Value ctx (CtxKeyOf (NewContextKey s ReqEndpoint)) = GoNil \<Longrightarrow>
   MetricsTagsFromContext s ctx = Inr [''endpoint'', ''unset'']"
  by (simp add: MetricsTagsFromContext_def selectedTags_def)

lemma MetricsTags_string:
  "svc s \<noteq> SvcUnset \<Longrightarrow> Value ctx (CtxKeyOf (NewContextKey s ReqEndpoint)) = GoString str \<Longrightarrow>
   MetricsTagsFromContext s ctx = Inr [''endpoint'', str]"
  by (simp add: MetricsTagsFromContext_def selectedTags_def)

text \<open>
  What the type assertion does outside the spec's precondition: with a service
  identity other than \<open>SvcUnset\<close>, a stored value that is neither nil nor a
  string makes \<^verbatim>\<open>MetricsTagsFromContext\<close> panic.
\<close>

lemma MetricsTags_not_string:
  "svc s \<noteq> SvcUnset \<Longrightarrow> Value ctx (CtxKeyOf (NewContextKey s ReqEndpoint)) = GoInt n \<Longrightarrow>
   MetricsTagsFromContext s ctx = Inl (InterfaceConversion (GoInt n))"
  by (simp add: MetricsTagsFromContext_def selectedTags_def)

subsection \<open>Lemmas on Init\<close>

lemma once_fctx_Init: "once (fctx_Init n s)"
  by (simp add: fctx_Init_def once_Do_def split: option.splits)

lemma fctx_Init_done: "once s \<Longrightarrow> fctx_Init n s = s"
  by (simp add: fctx_Init_def once_Do_def split: option.splits)

lemma svc_fctx_Init_first:
  "\<not> once s \<Longrightarrow>
   svc (fctx_Init n s) = (case serviceNameToSvcKey s n of Some k \<Rightarrow> k | None \<Rightarrow> SvcUnset)"
  by (simp add: fctx_Init_def once_Do_def split: option.splits)

lemma unset_inv_fctx0: "unset_inv fctx0"
  by (simp add: unset_inv_def fctx0_def SvcUnset_def)

lemma unset_inv_Init: "unset_inv s \<Longrightarrow> unset_inv (fctx_Init n s)"
  by (simp add: unset_inv_def fctx_Init_def once_Do_def)

lemma unset_inv_foldl: "unset_inv s \<Longrightarrow> unset_inv (foldl (\<lambda>t n. fctx_Init n t) s names)"
  by (induction names arbitrary: s) (simp_all add: unset_inv_Init)

lemma svc_after_Inits: "svc (foldl (\<lambda>t n. fctx_Init n t) fctx0 names) = SvcUnset"
  using unset_inv_foldl [OF unset_inv_fctx0, of names] by (simp add: unset_inv_def)

subsection \<open>Lemmas on contexts\<close>

lemma stringsOnly_map_of:
  "stringsOnly ctx \<Longrightarrow> map_of ctx (CtxKeyOf c) = Some v \<Longrightarrow> \<exists>str. v = GoString str"
proof (induction ctx)
  case Nil
  then show ?case by simp
next
  case (Cons kv ctx)
  obtain k w where kv: "kv = (k, w)" by (cases kv)
  have rest: "stringsOnly ctx" using Cons.prems(1) by (simp add: stringsOnly_def)
  show ?case
  proof (cases "k = CtxKeyOf c")
    case True
    then have "w = v" using Cons.prems(2) kv by simp
    moreover have "case w of GoString str \<Rightarrow> True | _ \<Rightarrow> False"
      using Cons.prems(1) kv True by (simp add: stringsOnly_def)
    ultimately show ?thesis by (cases v) simp_all
  next
    case False
    then have "map_of ctx (CtxKeyOf c) = Some v" using Cons.prems(2) kv by simp
    then show ?thesis using Cons.IH rest by blast
  qed
qed

lemma stringsOnly_Value:
  "stringsOnly ctx \<Longrightarrow>
   Value ctx (CtxKeyOf c) = GoNil \<or> (\<exists>str. Value ctx (CtxKeyOf c) = GoString str)"
  by (cases "map_of ctx (CtxKeyOf c)") (auto simp: Value_def dest: stringsOnly_map_of)

lemma MetricsTags_stringsOnly:
  assumes "stringsOnly ctx"
  shows "\<exists>tags. MetricsTagsFromContext s ctx = Inr tags"
proof (cases "svc s = SvcUnset")
  case True
  then show ?thesis by (simp add: MetricsTags_svc_unset)
next
  case False
  from stringsOnly_Value [OF assms, of "NewContextKey s ReqEndpoint"]
  show ?thesis
  proof
    assume "Value ctx (CtxKeyOf (NewContextKey s ReqEndpoint)) = GoNil"
    then show ?thesis using False by (simp add: MetricsTags_absent)
  next
    assume "\<exists>str. Value ctx (CtxKeyOf (NewContextKey s ReqEndpoint)) = GoString str"
    then show ?thesis using False by (auto simp: MetricsTags_string)
  qed
qed

subsection \<open>The claims on package fctx\<close>




text \<open>
  Claim C3. The table of service names starts with no entry, so after any
  sequence of \<^verbatim>\<open>Init\<close> calls from the start of the program the service identity
  is \<open>SvcUnset\<close>, and \<^verbatim>\<open>MetricsTagsFromContext\<close> returns the list "endpoint",
  "svc\_unset" for every context.
\<close>

theorem svc_remains_unset:
  "serviceNameToSvcKey fctx0 = Map.empty \<and>
   svc (foldl (\<lambda>t name. fctx_Init name t) fctx0 names) = SvcUnset \<and>
   MetricsTagsFromContext (foldl (\<lambda>t name. fctx_Init name t) fctx0 names) ctx
     = Inr [''endpoint'', ''svc_unset'']"
  by (simp add: svc_after_Inits MetricsTags_svc_unset) (simp add: fctx0_def)

text \<open>
  Claim C4. \<^verbatim>\<open>Init\<close> is idempotent and the first call wins: a second call,
  with any name, leaves the state as the first call made it. A first call (the
  \<^verbatim>\<open>sync.Once\<close> not yet done) sets the identity to the key of the name when
  the table knows it, and to \<open>SvcUnset\<close> when it does not. \<^verbatim>\<open>Init\<close> has no
  failing branch: it returns a state for every name.
\<close>

theorem fctx_Init_first_call_wins:
  "fctx_Init n2 (fctx_Init n1 s) = fctx_Init n1 s \<and>
   (\<not> once s \<and> serviceNameToSvcKey s n1 = None \<longrightarrow> svc (fctx_Init n1 s) = SvcUnset) \<and>
   (\<not> once s \<and> serviceNameToSvcKey s n1 = Some k \<longrightarrow> svc (fctx_Init n1 s) = k)"
  by (simp add: fctx_Init_done once_fctx_Init svc_fctx_Init_first)

theorem fctx_Init_first_call_wins_witness:
  "fctx_Init ''b'' (fctx_Init ''a'' (fctx0\<lparr>serviceNameToSvcKey := [''a'' \<mapsto> 1, ''b'' \<mapsto> 2]\<rparr>))
     = fctx_Init ''a'' (fctx0\<lparr>serviceNameToSvcKey := [''a'' \<mapsto> 1, ''b'' \<mapsto> 2]\<rparr>) \<and>
   svc (fctx_Init ''b'' (fctx_Init ''a'' (fctx0\<lparr>serviceNameToSvcKey := [''a'' \<mapsto> 1, ''b'' \<mapsto> 2]\<rparr>))) = 1 \<and>
   \<not> once (fctx0\<lparr>svc := 7\<rparr>) \<and> serviceNameToSvcKey (fctx0\<lparr>svc := 7\<rparr>) ''zzz'' = None \<and>
   svc (fctx_Init ''zzz'' (fctx0\<lparr>svc := 7\<rparr>)) = SvcUnset \<and>
   svc (fctx_Init ''a'' (fctx_Init ''zzz'' (fctx0\<lparr>serviceNameToSvcKey := [''a'' \<mapsto> 1, ''b'' \<mapsto> 2]\<rparr>)))
     = SvcUnset"
proof -
  let ?t = "fctx0\<lparr>serviceNameToSvcKey := [''a'' \<mapsto> 1, ''b'' \<mapsto> 2]\<rparr>"
  have t: "\<not> once ?t \<and> serviceNameToSvcKey ?t ''a'' = Some 1"
    by (simp add: fctx0_def)
  have u: "\<not> once (fctx0\<lparr>svc := 7\<rparr>) \<and> serviceNameToSvcKey (fctx0\<lparr>svc := 7\<rparr>) ''zzz'' = None"
    by (simp add: fctx0_def)
  have v: "\<not> once ?t \<and> serviceNameToSvcKey ?t ''zzz'' = None"
    by (simp add: fctx0_def)
  from t u v
    fctx_Init_first_call_wins [of "''b''" "''a''" ?t 1]
    fctx_Init_first_call_wins [of "''b''" "''zzz''" "fctx0\<lparr>svc := 7\<rparr>" 0]
    fctx_Init_first_call_wins [of "''a''" "''zzz''" ?t 0]
  show ?thesis by simp
qed

text \<open>
  Claim C6. The tag registry returns normally. Under the spec's precondition
  (every value stored under a key of the package is a string) both
  \<^verbatim>\<open>MetricsTagsFromContext\<close> and \<^verbatim>\<open>LogTagsFromContext\<close> return a list in every
  state, so the panic of the type assertion is not reached; an unset service
  identity gives the value "svc\_unset" and a missing context value gives
  "unset"; and in the program as it stands (any sequence of \<^verbatim>\<open>Init\<close> calls
  from its start) both return normally for every context, whatever it holds.
\<close>

theorem tag_registry_returns_normally:
  "(stringsOnly ctx \<longrightarrow>
      (\<exists>tags. MetricsTagsFromContext s ctx = Inr tags \<and>
              LogTagsFromContext s ctx = Inr (map GoString tags))) \<and>
   (svc s = SvcUnset \<longrightarrow>
      MetricsTagsFromContext s ctx = Inr [''endpoint'', ''svc_unset''] \<and>
      LogTagsFromContext s ctx = Inr [GoString ''endpoint'', GoString ''svc_unset'']) \<and>
   (svc s \<noteq> SvcUnset \<and> Value ctx (CtxKeyOf (NewContextKey s ReqEndpoint)) = GoNil \<longrightarrow>
      MetricsTagsFromContext s ctx = Inr [''endpoint'', ''unset''] \<and>
      LogTagsFromContext s ctx = Inr [GoString ''endpoint'', GoString ''unset'']) \<and>
   (\<exists>tags. MetricsTagsFromContext (foldl (\<lambda>t name. fctx_Init name t) fctx0 names) ctx' = Inr tags \<and>
           LogTagsFromContext (foldl (\<lambda>t name. fctx_Init name t) fctx0 names) ctx'
             = Inr (map GoString tags))"
proof -
  have a: "\<exists>tags. MetricsTagsFromContext s ctx = Inr tags \<and>
              LogTagsFromContext s ctx = Inr (map GoString tags)" if "stringsOnly ctx"
    using MetricsTags_stringsOnly [OF that, of s] by (auto simp: LogTags_of_MetricsTags)
  have b: "MetricsTagsFromContext s ctx = Inr [''endpoint'', ''svc_unset''] \<and>
      LogTagsFromContext s ctx = Inr [GoString ''endpoint'', GoString ''svc_unset'']"
    if "svc s = SvcUnset"
    using that by (simp add: LogTags_of_MetricsTags MetricsTags_svc_unset)
  have c: "MetricsTagsFromContext s ctx = Inr [''endpoint'', ''unset''] \<and>
      LogTagsFromContext s ctx = Inr [GoString ''endpoint'', GoString ''unset'']"
    if "svc s \<noteq> SvcUnset" "Value ctx (CtxKeyOf (NewContextKey s ReqEndpoint)) = GoNil"
    using that by (simp add: LogTags_of_MetricsTags MetricsTags_absent)
  have d: "\<exists>tags. MetricsTagsFromContext (foldl (\<lambda>t name. fctx_Init name t) fctx0 names) ctx' = Inr tags \<and>
           LogTagsFromContext (foldl (\<lambda>t name. fctx_Init name t) fctx0 names) ctx'
             = Inr (map GoString tags)"
    by (simp add: LogTags_of_MetricsTags MetricsTags_svc_unset svc_after_Inits)
  from a b c d show ?thesis by blast
qed

theorem tag_registry_returns_normally_witness:
  "stringsOnly [(OtherKey ''trace'', GoInt 5), (CtxKeyOf \<lparr>SvcKey = 1, ReqKey = 1\<rparr>, GoString ''GetUser'')] \<and>
   (\<exists>tags. MetricsTagsFromContext \<lparr>svc = 1, once = True, serviceNameToSvcKey = Map.empty\<rparr>
              [(OtherKey ''trace'', GoInt 5), (CtxKeyOf \<lparr>SvcKey = 1, ReqKey = 1\<rparr>, GoString ''GetUser'')]
            = Inr tags \<and>
           LogTagsFromContext \<lparr>svc = 1, once = True, serviceNameToSvcKey = Map.empty\<rparr>
              [(OtherKey ''trace'', GoInt 5), (CtxKeyOf \<lparr>SvcKey = 1, ReqKey = 1\<rparr>, GoString ''GetUser'')]
            = Inr (map GoString tags)) \<and>
   svc fctx0 = SvcUnset \<and>
   MetricsTagsFromContext fctx0 [(CtxKeyOf \<lparr>SvcKey = 0, ReqKey = 1\<rparr>, GoInt 3)]
     = Inr [''endpoint'', ''svc_unset''] \<and>
   svc \<lparr>svc = 1, once = True, serviceNameToSvcKey = Map.empty\<rparr> \<noteq> SvcUnset \<and>
   Value [] (CtxKeyOf (NewContextKey \<lparr>svc = 1, once = True, serviceNameToSvcKey = Map.empty\<rparr> ReqEndpoint))
     = GoNil \<and>
   MetricsTagsFromContext \<lparr>svc = 1, once = True, serviceNameToSvcKey = Map.empty\<rparr> []
     = Inr [''endpoint'', ''unset'']"
proof -
  let ?s = "\<lparr>svc = 1, once = True, serviceNameToSvcKey = Map.empty\<rparr>"
  let ?ctx = "[(OtherKey ''trace'', GoInt 5), (CtxKeyOf \<lparr>SvcKey = 1, ReqKey = 1\<rparr>, GoString ''GetUser'')]"
  have a: "stringsOnly ?ctx" by (simp add: stringsOnly_def)
  have b: "svc fctx0 = SvcUnset" by (simp add: fctx0_def SvcUnset_def)
  have c: "svc ?s \<noteq> SvcUnset" by (simp add: SvcUnset_def)
  have d: "Value [] (CtxKeyOf (NewContextKey ?s ReqEndpoint)) = GoNil" by (simp add: Value_def)
  from a b c d
    tag_registry_returns_normally [of ?ctx ?s]
    tag_registry_returns_normally [of "[(CtxKeyOf \<lparr>SvcKey = 0, ReqKey = 1\<rparr>, GoInt 3)]" fctx0]
    tag_registry_returns_normally [of "[]" ?s]
  show ?thesis by simp
qed

text \<open>
  Claim C7. \<^verbatim>\<open>LogTagsFromContext\<close> returns the data of
  \<^verbatim>\<open>MetricsTagsFromContext\<close>, every string converted to an interface value:
  the same length, and the same entry at every index. It panics where
  \<^verbatim>\<open>MetricsTagsFromContext\<close> panics, and nowhere else.
\<close>

theorem LogTags_same_data:
  "LogTagsFromContext s ctx =
     (case MetricsTagsFromContext s ctx of
        Inl p \<Rightarrow> Inl p
      | Inr tags \<Rightarrow> Inr (map GoString tags))"
  by (rule LogTags_of_MetricsTags)

text \<open>
  Claim C8. While the service identity is \<open>SvcUnset\<close> (as it is before any
  \<^verbatim>\<open>Init\<close> call), \<^verbatim>\<open>MetricsTagsFromContext\<close> gives every selected tag the value
  "svc\_unset", whatever the context holds: its result is each name of
  \<^verbatim>\<open>selectedTags\<close> followed by "svc\_unset", that is the list "endpoint",
  "svc\_unset".
\<close>

theorem uninitialized_gives_svc_unset:
  assumes "svc s = SvcUnset"
  shows "MetricsTagsFromContext s ctx
           = Inr (concat (map (\<lambda>(tagname, tagkey). [tagname, ''svc_unset'']) selectedTags)) \<and>
         MetricsTagsFromContext s ctx = Inr [''endpoint'', ''svc_unset'']"
  using assms by (simp add: MetricsTagsFromContext_def tagsLoop_svc_unset selectedTags_def)

theorem uninitialized_gives_svc_unset_witness:
  "svc fctx0 = SvcUnset \<and>
   MetricsTagsFromContext fctx0
     (WithValue [(OtherKey ''trace'', GoInt 5)] (CtxKeyOf (NewContextKey fctx0 ReqEndpoint))
        (GoString ''GetUser''))
     = Inr [''endpoint'', ''svc_unset'']"
proof -
  have a: "svc fctx0 = SvcUnset" by (simp add: fctx0_def SvcUnset_def)
  from a uninitialized_gives_svc_unset [OF a, THEN conjunct2] show ?thesis by blast
qed


section \<open>Properties of package logger\<close>

subsection \<open>Lemmas on the library and on the Levelers\<close>

lemma even_length_padKeyvals: "even (length (padKeyvals kvs))"
  by (simp add: padKeyvals_def)

lemma padKeyvals_even: "even (length kvs) \<Longrightarrow> padKeyvals kvs = kvs"
  by (simp add: padKeyvals_def)

lemma padKeyvals_append: "even (length xs) \<Longrightarrow> padKeyvals (xs @ ys) = xs @ padKeyvals ys"
  by (simp add: padKeyvals_def)

lemma length_bindValues: "length (bindValues xs) = length xs"
  by (induction xs rule: bindValues.induct) simp_all

lemma bindValues_append:
  "even (length xs) \<Longrightarrow> bindValues (xs @ ys) = bindValues xs @ bindValues ys"
  by (induction xs rule: bindValues.induct) simp_all

lemma lastValue_append:
  "even (length xs) \<Longrightarrow>
   lastValue k (xs @ ys) = (case lastValue k ys of Some w \<Rightarrow> Some w | None \<Rightarrow> lastValue k xs)"
  by (induction k xs rule: lastValue.induct) (simp_all split: option.splits)

lemma keyvals_log_With:
  "even (length (keyvals lg)) \<Longrightarrow> keyvals (log_With lg kvs) = keyvals lg @ padKeyvals kvs"
  by (simp add: log_With_def padKeyvals_append) (simp add: padKeyvals_def)

lemma base_log_With: "base (log_With lg kvs) = base lg"
  by (simp add: log_With_def)

lemma keyvals_levels_With:
  "wholePairs l \<Longrightarrow>
   keyvals (internalLogger (levels_With l kvs)) = keyvals (internalLogger l) @ padKeyvals kvs"
  by (simp add: wholePairs_def levels_With_def keyvals_log_With)

lemma base_levels_With: "base (internalLogger (levels_With l kvs)) = base (internalLogger l)"
  by (simp add: levels_With_def base_log_With)

lemma wholePairs_levels_With: "wholePairs l \<Longrightarrow> wholePairs (levels_With l kvs)"
  using keyvals_levels_With [of l kvs] by (simp add: wholePairs_def even_length_padKeyvals)

lemma wholePairs_foldl: "wholePairs l \<Longrightarrow> wholePairs (foldl levels_With l kvss)"
  by (induction kvss arbitrary: l) (simp_all add: wholePairs_levels_With)

lemma keyvals_foldl_With:
  "wholePairs l \<Longrightarrow>
   keyvals (internalLogger (foldl levels_With l kvss))
     = keyvals (internalLogger l) @ concat (map padKeyvals kvss)"
  by (induction kvss arbitrary: l) (simp_all add: wholePairs_levels_With keyvals_levels_With)

lemma base_foldl_With: "base (internalLogger (foldl levels_With l kvss)) = base (internalLogger l)"
  by (induction kvss arbitrary: l) (simp_all add: base_levels_With)

lemma concat_padKeyvals_even:
  "\<forall>kvs \<in> set kvss. even (length kvs) \<Longrightarrow> concat (map padKeyvals kvss) = concat kvss"
  by (induction kvss) (simp_all add: padKeyvals_even)

lemma Log_record:
  "even (length (keyvals lg)) \<Longrightarrow>
   Log wr lg kvs s =
     (baseLog wr (emitted s) (base lg) (bindValues (keyvals lg) @ padKeyvals kvs),
      s\<lparr>emitted := emitted s @ [(base lg, bindValues (keyvals lg) @ padKeyvals kvs)]\<rparr>)"
  by (simp add: Log_def Let_def padKeyvals_append)

lemma keyvals_level:
  "keyvals (log_WithPrefix lg [GoString ''level'', GoLevel v])
     = [GoString ''level'', GoLevel v] @ keyvals lg"
  by (simp add: log_WithPrefix_def padKeyvals_def)

lemma base_level: "base (log_WithPrefix lg kvs) = base lg"
  by (simp add: log_WithPrefix_def)

lemma keyvals_WithCustomDepth:
  "wholePairs l \<Longrightarrow>
   keyvals (internalLogger (levels_WithCustomDepth l depth kvs))
     = keyvals (internalLogger l)
       @ [GoString ''caller'', GoValuer (CallerAt depth),
          GoString ''function'', GoValuer (FunctionAt depth)]
       @ padKeyvals kvs"
  by (simp add: levels_WithCustomDepth_def keyvals_levels_With wholePairs_levels_With
      caller_def function_valuer_def padKeyvals_def)

lemma base_WithCustomDepth:
  "base (internalLogger (levels_WithCustomDepth l depth kvs)) = base (internalLogger l)"
  by (simp add: levels_WithCustomDepth_def base_levels_With)

lemma Log_Error_WithCustomDepth:
  assumes "wholePairs l"
  shows "Log wr (levels_Error (levels_WithCustomDepth l depth kvs))
           [GoString ''err'', iface_of_error err] s =
         (baseLog wr (emitted s) (base (internalLogger l)) (errorRecord l depth err kvs),
          s\<lparr>emitted := emitted s @ [(base (internalLogger l), errorRecord l depth err kvs)]\<rparr>)"
proof -
  let ?lg = "levels_Error (levels_WithCustomDepth l depth kvs)"
  have kv: "keyvals ?lg = [GoString ''level'', GoLevel ErrorLvl]
      @ keyvals (internalLogger l)
      @ [GoString ''caller'', GoValuer (CallerAt depth),
         GoString ''function'', GoValuer (FunctionAt depth)]
      @ padKeyvals kvs"
    using assms by (simp add: levels_Error_def keyvals_level keyvals_WithCustomDepth)
  have ev: "even (length (keyvals ?lg))"
    using assms by (simp add: kv wholePairs_def even_length_padKeyvals)
  have b: "base ?lg = base (internalLogger l)"
    by (simp add: levels_Error_def base_level base_WithCustomDepth)
  have bind: "bindValues (keyvals ?lg) @ padKeyvals [GoString ''err'', iface_of_error err]
      = errorRecord l depth err kvs"
    using assms
    by (simp add: kv errorRecord_def wholePairs_def bindValues_append padKeyvals_def)
  show ?thesis
    unfolding Log_record [OF ev] b bind ..
qed

lemma logger_init_boot: "logger_init boot = Inr started"
  by (simp add: logger_init_def logger_Init_def boot_def started_def AddDefaultKeyvals_def
      levels_With_def log_With_def levels_Info_def log_WithPrefix_def padKeyvals_def
      caller_def function_valuer_def nominalStackDepth_def Llongfile_def
      FormatJson_def FormatLogfmt_def FormatNop_def Let_def)

lemma AddDefaultKeyvals_wholePairs:
  "defaultLevels s = Some l \<Longrightarrow> wholePairs l \<Longrightarrow>
   \<exists>s' l'. AddDefaultKeyvals kvs s = Inr s' \<and> defaultLevels s' = Some l' \<and> wholePairs l'"
  by (simp add: AddDefaultKeyvals_def Let_def wholePairs_levels_With)

lemma logger_Init_wholePairs:
  assumes "logger_Init format s = Inr s'"
  shows "\<exists>l'. defaultLevels s' = Some l' \<and> wholePairs l'"
proof -
  obtain b where s': "AddDefaultKeyvals
            [GoString ''timestamp'', GoValuer DefaultTimestampUTC,
             GoString ''file'', caller nominalStackDepth,
             GoString ''function'', function_valuer nominalStackDepth]
            (s\<lparr>defaultFormat := format,
               defaultLevels := Some \<lparr>internalLogger = \<lparr>base = b, keyvals = []\<rparr>\<rparr>\<rparr>) = Inr s'"
    using assms by (auto simp: logger_Init_def split: if_splits)
  let ?s = "s\<lparr>defaultFormat := format,
               defaultLevels := Some \<lparr>internalLogger = \<lparr>base = b, keyvals = []\<rparr>\<rparr>\<rparr>"
  have d: "defaultLevels ?s = Some \<lparr>internalLogger = \<lparr>base = b, keyvals = []\<rparr>\<rparr>"
    by simp
  have w: "wholePairs \<lparr>internalLogger = \<lparr>base = b, keyvals = []\<rparr>\<rparr>"
    by (simp add: wholePairs_def)
  from AddDefaultKeyvals_wholePairs [OF d w] s' show ?thesis
    by (metis sum.inject(2))
qed

lemma wholePairs_started:
  "defaultLevels started
     = Some \<lparr>internalLogger = \<lparr>base = JSONLogger, keyvals =
          [GoString ''timestamp'', GoValuer DefaultTimestampUTC,
           GoString ''file'', GoValuer (CallerAt 3),
           GoString ''function'', GoValuer (FunctionAt 3)]\<rparr>\<rparr>"
  by (simp add: started_def)

lemma LogError_unfold:
  assumes "defaultLevels s = Some l" and "wholePairs l"
  shows "LogError wr err kvs s =
         Inr (baseLog wr (emitted s) (base (internalLogger l))
                (errorRecord l (nominalStackDepth + 1) err kvs),
              s\<lparr>emitted := emitted s
                   @ [(base (internalLogger l), errorRecord l (nominalStackDepth + 1) err kvs)]\<rparr>)"
  using assms by (simp add: LogError_def Log_Error_WithCustomDepth)

lemma lastValue_err: "wholePairs l \<Longrightarrow>
  lastValue (GoString ''err'') (errorRecord l depth err kvs) = Some (iface_of_error err)"
proof -
  assume l: "wholePairs l"
  let ?pre = "[GoString ''level'', GoLevel ErrorLvl]
     @ bindValues (keyvals (internalLogger l))
     @ [GoString ''caller'', GoResolved (CallerAt depth),
        GoString ''function'', GoResolved (FunctionAt depth)]
     @ bindValues (padKeyvals kvs)"
  have ev: "even (length ?pre)"
    using l by (simp add: wholePairs_def length_bindValues even_length_padKeyvals)
  have "errorRecord l depth err kvs = ?pre @ [GoString ''err'', iface_of_error err]"
    by (simp add: errorRecord_def)
  then show ?thesis
    using lastValue_append [OF ev, of "GoString ''err''" "[GoString ''err'', iface_of_error err]"]
    by simp
qed


subsection \<open>The claims on package logger\<close>

text \<open>
  Claim C1, as the spec states it: \<^verbatim>\<open>LogError\<close> returns the error it was
  given. It does not. After the package's \<^verbatim>\<open>init\<close>, with every write to
  standard output succeeding, \<^verbatim>\<open>LogError\<close> of the error "boom" with the pair
  "k", "v" returns nil: the value returned is the one the logger's \<^verbatim>\<open>Log\<close>
  returns.
\<close>

theorem LogError_returns_err_counterexample:
  "map_sum id fst
     (LogError everyWriteSucceeds (Some (GoError ''boom'')) [GoString ''k'', GoString ''v''] started)
     = Inr None \<and>
   map_sum id fst
     (LogError everyWriteSucceeds (Some (GoError ''boom'')) [GoString ''k'', GoString ''v''] started)
     \<noteq> Inr (Some (GoError ''boom''))"
proof -
  have w: "wholePairs \<lparr>internalLogger = \<lparr>base = JSONLogger, keyvals =
          [GoString ''timestamp'', GoValuer DefaultTimestampUTC,
           GoString ''file'', GoValuer (CallerAt 3),
           GoString ''function'', GoValuer (FunctionAt 3)]\<rparr>\<rparr>"
    by (simp add: wholePairs_def)
  show ?thesis
    unfolding LogError_unfold [OF wholePairs_started w]
    by (simp add: baseLog_def everyWriteSucceeds_def)
qed

text \<open>
  Claim C1, amended. From a state whose default Leveler \<open>l\<close> holds whole pairs
  (every state the package builds), \<^verbatim>\<open>LogError(err, keyvals...)\<close> hands one
  record to the sink of \<open>l\<close> and returns what the sink answers to it: nil when
  the write succeeds, and always nil for the no-op sink; not \<open>err\<close>. The
  record ends with the given pairs (completed when their number is odd, their
  deferred values called) followed by the key "err" and \<open>err\<close>, and a reader of
  the record finds \<open>err\<close> under the key "err".
\<close>

theorem LogError_returns_sink_answer:
  assumes "defaultLevels s = Some l" and "wholePairs l"
  shows "map_sum id fst (LogError wr err kvs s)
           = Inr (baseLog wr (emitted s) (base (internalLogger l))
                    (errorRecord l (nominalStackDepth + 1) err kvs)) \<and>
         (base (internalLogger l) = NopLogger \<longrightarrow> map_sum id fst (LogError wr err kvs s) = Inr None) \<and>
         map_sum id (emitted \<circ> snd) (LogError wr err kvs s)
           = Inr (emitted s
                  @ [(base (internalLogger l), errorRecord l (nominalStackDepth + 1) err kvs)]) \<and>
         (\<exists>pre. errorRecord l (nominalStackDepth + 1) err kvs
                  = pre @ bindValues (padKeyvals kvs) @ [GoString ''err'', iface_of_error err]) \<and>
         lastValue (GoString ''err'') (errorRecord l (nominalStackDepth + 1) err kvs)
           = Some (iface_of_error err)"
proof -
  have "\<exists>pre. errorRecord l (nominalStackDepth + 1) err kvs
                  = pre @ bindValues (padKeyvals kvs) @ [GoString ''err'', iface_of_error err]"
    unfolding errorRecord_def by (metis append.assoc)
  then show ?thesis
    using assms
    by (simp add: LogError_unfold lastValue_err) (simp add: baseLog_def)
qed

theorem LogError_returns_sink_answer_witness:
  "defaultLevels started
     = Some \<lparr>internalLogger = \<lparr>base = JSONLogger, keyvals =
          [GoString ''timestamp'', GoValuer DefaultTimestampUTC,
           GoString ''file'', GoValuer (CallerAt 3),
           GoString ''function'', GoValuer (FunctionAt 3)]\<rparr>\<rparr> \<and>
   map_sum id (emitted \<circ> snd)
     (LogError everyWriteSucceeds (Some (GoError ''boom'')) [GoString ''k'', GoString ''v''] started)
     = Inr [(JSONLogger,
             [GoString ''level'', GoLevel ErrorLvl,
              GoString ''timestamp'', GoResolved DefaultTimestampUTC,
              GoString ''file'', GoResolved (CallerAt 3),
              GoString ''function'', GoResolved (FunctionAt 3),
              GoString ''caller'', GoResolved (CallerAt 4),
              GoString ''function'', GoResolved (FunctionAt 4),
              GoString ''k'', GoString ''v'',
              GoString ''err'', GoErr (GoError ''boom'')])] \<and>
   map_sum id fst
     (LogError everyWriteSucceeds (Some (GoError ''boom'')) [GoString ''k'', GoString ''v''] started)
     = Inr None"
proof -
  let ?l = "\<lparr>internalLogger = \<lparr>base = JSONLogger, keyvals =
          [GoString ''timestamp'', GoValuer DefaultTimestampUTC,
           GoString ''file'', GoValuer (CallerAt 3),
           GoString ''function'', GoValuer (FunctionAt 3)]\<rparr>\<rparr>"
  have w: "wholePairs ?l" by (simp add: wholePairs_def)
  have e: "emitted started = []" by (simp add: started_def)
  from LogError_returns_sink_answer [OF wholePairs_started w,
      of everyWriteSucceeds "Some (GoError ''boom'')" "[GoString ''k'', GoString ''v'']"]
  show ?thesis
    by (simp add: wholePairs_started e errorRecord_def padKeyvals_def iface_of_error_def
        nominalStackDepth_def baseLog_def everyWriteSucceeds_def)
qed

text \<open>
  Claim C5. \<^verbatim>\<open>With\<close> returns a new Leveler and leaves its receiver as it was:
  after a fork and a record emitted from the child, a record emitted from the
  parent carries the parent's pairs alone. Over any sequence of \<^verbatim>\<open>With\<close>
  calls, the pairs of the last Leveler are the pairs of the first followed by
  the pairs of every call in order (each completed when its number is odd, so
  exactly the given ones when every call passes whole pairs); a record emitted
  from it carries them in that order after the level; and a reader that lets
  the last write win finds, for a key, the value of the latest call that has
  it, else the parent's.
\<close>

theorem With_accumulates:
  assumes "wholePairs l"
  shows "keyvals (internalLogger (foldl levels_With l kvss))
           = keyvals (internalLogger l) @ concat (map padKeyvals kvss) \<and>
         ((\<forall>kvs \<in> set kvss. even (length kvs)) \<longrightarrow>
            keyvals (internalLogger (foldl levels_With l kvss))
              = keyvals (internalLogger l) @ concat kvss) \<and>
         base (internalLogger (foldl levels_With l kvss)) = base (internalLogger l) \<and>
         emitted (snd (Log wr (levels_Info (foldl levels_With l kvss)) [] s))
           = emitted s
             @ [(base (internalLogger l),
                 [GoString ''level'', GoLevel InfoLvl]
                 @ bindValues (keyvals (internalLogger l) @ concat (map padKeyvals kvss)))] \<and>
         emitted (snd (Log wr (levels_Info l) []
                    (snd (Log wr (levels_Info (levels_With l kvs)) [] s))))
           = emitted s
             @ [(base (internalLogger l),
                 [GoString ''level'', GoLevel InfoLvl]
                 @ bindValues (keyvals (internalLogger l) @ padKeyvals kvs)),
                (base (internalLogger l),
                 [GoString ''level'', GoLevel InfoLvl] @ bindValues (keyvals (internalLogger l)))] \<and>
         lastValue k (keyvals (internalLogger (levels_With l kvs)))
           = (case lastValue k (padKeyvals kvs) of
                Some w \<Rightarrow> Some w
              | None \<Rightarrow> lastValue k (keyvals (internalLogger l)))"
proof -
  have a: "keyvals (internalLogger (foldl levels_With l kvss))
           = keyvals (internalLogger l) @ concat (map padKeyvals kvss)"
    using assms by (rule keyvals_foldl_With)
  have b: "keyvals (internalLogger (foldl levels_With l kvss))
              = keyvals (internalLogger l) @ concat kvss"
    if "\<forall>kvs \<in> set kvss. even (length kvs)"
    using a concat_padKeyvals_even [OF that] by simp
  have c: "base (internalLogger (foldl levels_With l kvss)) = base (internalLogger l)"
    by (rule base_foldl_With)
  have info: "emitted (snd (Log wr (levels_Info l') [] t))
      = emitted t @ [(base (internalLogger l'),
           [GoString ''level'', GoLevel InfoLvl] @ bindValues (keyvals (internalLogger l')))]"
    if "wholePairs l'" for l' t
  proof -
    have "even (length (keyvals (levels_Info l')))"
      using that by (simp add: levels_Info_def keyvals_level wholePairs_def)
    from Log_record [OF this, of wr "[]" t] show ?thesis
      by (simp add: levels_Info_def keyvals_level base_level padKeyvals_def)
  qed
  have d: "emitted (snd (Log wr (levels_Info (foldl levels_With l kvss)) [] s))
           = emitted s
             @ [(base (internalLogger l),
                 [GoString ''level'', GoLevel InfoLvl]
                 @ bindValues (keyvals (internalLogger l) @ concat (map padKeyvals kvss)))]"
    using info [OF wholePairs_foldl [OF assms], of kvss s] by (simp add: a c)
  have e: "emitted (snd (Log wr (levels_Info l) []
                    (snd (Log wr (levels_Info (levels_With l kvs)) [] s))))
           = emitted s
             @ [(base (internalLogger l),
                 [GoString ''level'', GoLevel InfoLvl]
                 @ bindValues (keyvals (internalLogger l) @ padKeyvals kvs)),
                (base (internalLogger l),
                 [GoString ''level'', GoLevel InfoLvl] @ bindValues (keyvals (internalLogger l)))]"
    using info [OF assms] info [OF wholePairs_levels_With [OF assms], of kvs s]
    by (simp add: keyvals_levels_With [OF assms] base_levels_With)
  have f: "lastValue k (keyvals (internalLogger (levels_With l kvs)))
           = (case lastValue k (padKeyvals kvs) of
                Some w \<Rightarrow> Some w
              | None \<Rightarrow> lastValue k (keyvals (internalLogger l)))"
    using assms by (simp add: keyvals_levels_With lastValue_append wholePairs_def)
  from a b c d e f show ?thesis by blast
qed

theorem With_accumulates_witness:
  "wholePairs \<lparr>internalLogger = \<lparr>base = JSONLogger, keyvals = [GoString ''a'', GoInt 1]\<rparr>\<rparr> \<and>
   keyvals (internalLogger (foldl levels_With
      \<lparr>internalLogger = \<lparr>base = JSONLogger, keyvals = [GoString ''a'', GoInt 1]\<rparr>\<rparr>
      [[GoString ''b'', GoInt 2], [], [GoString ''a'', GoInt 3, GoString ''c'', GoInt 4]]))
     = [GoString ''a'', GoInt 1, GoString ''b'', GoInt 2,
        GoString ''a'', GoInt 3, GoString ''c'', GoInt 4] \<and>
   lastValue (GoString ''a'') (keyvals (internalLogger (levels_With
      \<lparr>internalLogger = \<lparr>base = JSONLogger, keyvals = [GoString ''a'', GoInt 1]\<rparr>\<rparr>
      [GoString ''a'', GoInt 3])))
     = Some (GoInt 3)"
proof -
  let ?l = "\<lparr>internalLogger = \<lparr>base = JSONLogger, keyvals = [GoString ''a'', GoInt 1]\<rparr>\<rparr>"
  let ?kvss = "[[GoString ''b'', GoInt 2], [], [GoString ''a'', GoInt 3, GoString ''c'', GoInt 4]]"
  have w: "wholePairs ?l" by (simp add: wholePairs_def)
  have e: "\<forall>kvs \<in> set ?kvss. even (length kvs)" by simp
  from w e [simplified]
    With_accumulates [OF w, where kvss = ?kvss and k = "GoString ''a''"
      and kvs = "[GoString ''a'', GoInt 3]"]
  show ?thesis by (simp add: padKeyvals_def)
qed




text \<open>
  Claim C10. \<^verbatim>\<open>Init\<close> of the package panics for every format other than the
  three it knows; for each of the three it returns normally, records the
  format, and makes the default Leveler a logger on the sink of that format
  (JSON, logfmt or no-op) with the three baseline pairs.
\<close>

theorem logger_Init_formats:
  "(format \<noteq> FormatJson \<and> format \<noteq> FormatLogfmt \<and> format \<noteq> FormatNop \<longrightarrow>
      logger_Init format s = Inl (InvalidLogFormat format)) \<and>
   (format = FormatJson \<or> format = FormatLogfmt \<or> format = FormatNop \<longrightarrow>
      (\<exists>s'. logger_Init format s = Inr s' \<and>
            defaultFormat s' = format \<and>
            defaultLevels s' =
              Some \<lparr>internalLogger =
                \<lparr>base = (if format = FormatJson then JSONLogger
                          else if format = FormatLogfmt then LogfmtLogger else NopLogger),
                 keyvals = [GoString ''timestamp'', GoValuer DefaultTimestampUTC,
                            GoString ''file'', GoValuer (CallerAt 3),
                            GoString ''function'', GoValuer (FunctionAt 3)]\<rparr>\<rparr>))"
  by (simp add: logger_Init_def AddDefaultKeyvals_def Let_def levels_With_def log_With_def
      padKeyvals_def caller_def function_valuer_def nominalStackDepth_def
      FormatJson_def FormatLogfmt_def FormatNop_def)

theorem logger_Init_formats_witness:
  "(7::32 word) \<noteq> FormatJson \<and> 7 \<noteq> FormatLogfmt \<and> 7 \<noteq> FormatNop \<and>
   logger_Init 7 started = Inl (InvalidLogFormat 7) \<and>
   logger_Init (- 1) boot = Inl (InvalidLogFormat (- 1)) \<and>
   map_sum id (map_option (base \<circ> internalLogger) \<circ> defaultLevels) (logger_Init FormatNop started)
     = Inr (Some NopLogger) \<and>
   map_sum id (map_option (base \<circ> internalLogger) \<circ> defaultLevels) (logger_Init FormatLogfmt boot)
     = Inr (Some LogfmtLogger) \<and>
   map_sum id (map_option (base \<circ> internalLogger) \<circ> defaultLevels) (logger_Init FormatJson boot)
     = Inr (Some JSONLogger)"
proof -
  have n: "(7::32 word) \<noteq> FormatJson \<and> 7 \<noteq> FormatLogfmt \<and> 7 \<noteq> FormatNop"
    by (simp add: FormatJson_def FormatLogfmt_def FormatNop_def)
  have m: "(- 1::32 word) \<noteq> FormatJson \<and> - 1 \<noteq> FormatLogfmt \<and> - 1 \<noteq> FormatNop"
    by (simp add: FormatJson_def FormatLogfmt_def FormatNop_def)
  have d: "FormatNop \<noteq> FormatJson \<and> FormatNop \<noteq> FormatLogfmt \<and> FormatLogfmt \<noteq> FormatJson"
    by (simp add: FormatJson_def FormatLogfmt_def FormatNop_def)
  from n m d
    logger_Init_formats [of 7 started]
    logger_Init_formats [of "- 1" boot]
    logger_Init_formats [of FormatNop started]
    logger_Init_formats [of FormatLogfmt boot]
    logger_Init_formats [of FormatJson boot]
  show ?thesis by auto
qed

end
